theory Spec2Isabelle
  imports Complex_Main
begin

section \<open>PageRank: transition model, sampling estimator, iterative estimator\<close>

text \<open>
  A shallow embedding of \<^verbatim>\<open>src/Pagerank/Pagerank.py\<close>.

  \<^item> A Python \<^verbatim>\<open>dict\<close> is an association list in insertion order; its keys are
    distinct. A Python \<^verbatim>\<open>set\<close> of pages is the list of its elements in iteration
    order, without repetition. Both facts are guarantees of the Python types and are
    stated by \<open>is_dict\<close> where a theorem needs them.
  \<^item> A Python \<^verbatim>\<open>float\<close> is a real number (no rounding); \<^verbatim>\<open>math.inf\<close> is a value of
    its own. A Python \<^verbatim>\<open>int\<close> is an \<open>int\<close>.
  \<^item> An exception is a value \<open>Inl e\<close> of the result type.
  \<^item> The module \<^verbatim>\<open>random\<close> is not part of the program: the random source is a
    parameter \<open>rnd\<close>, the sequence of numbers that \<^verbatim>\<open>random.random()\<close> would return,
    one for each call of \<^verbatim>\<open>random.choice\<close> and \<^verbatim>\<open>random.choices\<close>.
  \<^item> The \<^verbatim>\<open>while\<close> loop of \<^verbatim>\<open>iterate_pagerank\<close> may run forever: the result \<open>None\<close>
    stands for a call that does not return.
\<close>

subsection \<open>Python values\<close>

datatype py_error = KeyError | IndexError | ZeroDivisionError | ValueError


type_synonym 'p corpus = "('p \<times> 'p list) list"

type_synonym 'p dist = "('p \<times> real) list"

definition keys :: "('k \<times> 'v) list \<Rightarrow> 'k list" where
  "keys d = map fst d"

definition dict_values :: "('k \<times> 'v) list \<Rightarrow> 'v list" where
  "dict_values d = map snd d"

text \<open>\<^verbatim>\<open>d[k]\<close>: the value stored under the key, KeyError when there is none.\<close>

definition getitem :: "('k \<times> 'v) list \<Rightarrow> 'k \<Rightarrow> py_error + 'v" where
  "getitem d k = (case map_of d k of None \<Rightarrow> Inl KeyError | Some v \<Rightarrow> Inr v)"

text \<open>\<^verbatim>\<open>d[k] = v\<close>: an existing key keeps its place, a new key goes to the end.\<close>

definition setitem :: "('k \<times> 'v) list \<Rightarrow> 'k \<Rightarrow> 'v \<Rightarrow> ('k \<times> 'v) list" where
  "setitem d k v =
     (if k \<in> set (keys d) then map (\<lambda>(k', v'). if k' = k then (k', v) else (k', v')) d
      else d @ [(k, v)])"

text \<open>\<^verbatim>\<open>d[k] += v\<close>: reads the key first, so a missing key is a KeyError.\<close>

definition iadd :: "('k \<times> 'v::plus) list \<Rightarrow> 'k \<Rightarrow> 'v \<Rightarrow> py_error + ('k \<times> 'v) list" where
  "iadd d k v = (case getitem d k of Inl e \<Rightarrow> Inl e | Inr x \<Rightarrow> Inr (setitem d k (x + v)))"

text \<open>\<^verbatim>\<open>a / b\<close> on numbers: ZeroDivisionError when the divisor is zero.\<close>

definition py_div :: "real \<Rightarrow> real \<Rightarrow> py_error + real" where
  "py_div a b = (if b = 0 then Inl ZeroDivisionError else Inr (a / b))"

subsection \<open>The random source\<close>

text \<open>
  \<^verbatim>\<open>random.choice(seq)\<close> raises IndexError on an empty sequence and returns one of its
  elements otherwise: with the draw \<open>u\<close> in \<open>[0, 1)\<close>, the element at \<open>\<lfloor>u * len\<rfloor>\<close>.
  Whatever the draw is, the index is kept inside the sequence.
\<close>

definition random_choice :: "real \<Rightarrow> 'a list \<Rightarrow> py_error + 'a" where
  "random_choice u seq =
     (if seq = [] then Inl IndexError
      else Inr (seq ! min (nat \<lfloor>u * real (length seq)\<rfloor>) (length seq - 1)))"

text \<open>\<^verbatim>\<open>itertools.accumulate(weights)\<close>: the running totals, \<open>acc\<close> the total so far.\<close>

fun accumulate :: "real \<Rightarrow> real list \<Rightarrow> real list" where
  "accumulate acc [] = []"
| "accumulate acc (w # ws) = (acc + w) # accumulate (acc + w) ws"

text \<open>
  \<^verbatim>\<open>bisect.bisect_right(a, x, lo, hi)\<close>, the binary search that \<^verbatim>\<open>random.choices\<close> runs
  over the cumulative weights. It reads \<open>a\<close> below \<open>hi\<close> only.
\<close>

function bisect :: "real list \<Rightarrow> real \<Rightarrow> nat \<Rightarrow> nat \<Rightarrow> nat" where
  "bisect a x lo hi =
     (if lo < hi then
        (let mid = (lo + hi) div 2
         in if x < a ! mid then bisect a x lo mid else bisect a x (mid + 1) hi)
      else lo)"
  by pat_completeness auto
termination
  by (relation "measure (\<lambda>(a, x, lo, hi). hi - lo)") auto

declare bisect.simps [simp del]

text \<open>
  \<^verbatim>\<open>random.choices(population, weights)[0]\<close>, as the library computes it from the draw
  \<open>u\<close> of \<^verbatim>\<open>random.random()\<close>: ValueError when the number of weights is not that of the
  population, IndexError on an empty population (the last cumulative weight is read),
  ValueError when the total of the weights is not positive, and otherwise the element
  of the population at the index found by the binary search for \<open>u * total\<close>, which
  stops at the last index.
\<close>

definition random_choices :: "real \<Rightarrow> 'a list \<Rightarrow> real list \<Rightarrow> py_error + 'a" where
  "random_choices u population weights =
     (let n = length population;
          cum_weights = accumulate 0 weights
      in if length cum_weights \<noteq> n then Inl ValueError
         else if cum_weights = [] then Inl IndexError
         else (let total = last cum_weights
               in if total \<le> 0 then Inl ValueError
                  else Inr (population ! bisect cum_weights (u * total) 0 (n - 1))))"

subsection \<open>crawl: the restriction of the links to the corpus\<close>

text \<open>
  The second loop of \<^verbatim>\<open>crawl\<close> (lines 43 to 47): every page keeps the links that are
  keys of \<^verbatim>\<open>pages\<close>. The first loop reads files and is not modelled.
\<close>

definition restrict_links :: "'p corpus \<Rightarrow> 'p corpus" where
  "restrict_links pages =
     map (\<lambda>(filename, links). (filename, filter (\<lambda>link. link \<in> set (keys pages)) links)) pages"

subsection \<open>transition_model\<close>

text \<open>The loop of lines 71 and 72: \<^verbatim>\<open>specific_factor[corpus_links] += links\<close>.\<close>

fun add_links :: "'p dist \<Rightarrow> 'p list \<Rightarrow> real \<Rightarrow> py_error + 'p dist" where
  "add_links specific_factor [] links = Inr specific_factor"
| "add_links specific_factor (corpus_links # rest) links =
     (case iadd specific_factor corpus_links links of
        Inl e \<Rightarrow> Inl e
      | Inr specific_factor' \<Rightarrow> add_links specific_factor' rest links)"

definition transition_model :: "'p corpus \<Rightarrow> 'p \<Rightarrow> real \<Rightarrow> py_error + 'p dist" where
  "transition_model corpus page damping_factor =
     (case getitem corpus page of
        Inl e \<Rightarrow> Inl e
      | Inr out \<Rightarrow>
          if out \<noteq> [] then
            (case py_div (1 - damping_factor) (real (length corpus)) of
               Inl e \<Rightarrow> Inl e
             | Inr r \<Rightarrow>
                 (let random_factor = replicate (length corpus) r;
                      specific_factor = zip (keys corpus) random_factor
                  in case py_div damping_factor (real (length out)) of
                       Inl e \<Rightarrow> Inl e
                     | Inr links \<Rightarrow> add_links specific_factor out links))
          else
            (case py_div 1 (real (length corpus)) of
               Inl e \<Rightarrow> Inl e
             | Inr u \<Rightarrow> Inr (zip (keys corpus) (replicate (length corpus) u))))"

subsection \<open>sample_pagerank\<close>

text \<open>
  The loop of lines 98 to 101, \<open>k\<close> iterations left; \<open>i\<close> counts the calls of the
  random source.
\<close>

fun walk ::
  "'p corpus \<Rightarrow> real \<Rightarrow> (nat \<Rightarrow> real) \<Rightarrow> nat \<Rightarrow> nat \<Rightarrow> 'p \<Rightarrow> ('p \<times> int) list
    \<Rightarrow> py_error + ('p \<times> int) list" where
  "walk corpus damping_factor rnd i 0 corpus_page sample_ranks = Inr sample_ranks"
| "walk corpus damping_factor rnd i (Suc k) corpus_page sample_ranks =
     (case iadd sample_ranks corpus_page 1 of
        Inl e \<Rightarrow> Inl e
      | Inr sample_ranks' \<Rightarrow>
          (case transition_model corpus corpus_page damping_factor of
             Inl e \<Rightarrow> Inl e
           | Inr internation \<Rightarrow>
               (case random_choices (rnd i) (keys internation) (dict_values internation) of
                  Inl e \<Rightarrow> Inl e
                | Inr corpus_page' \<Rightarrow>
                    walk corpus damping_factor rnd (Suc i) k corpus_page' sample_ranks')))"

text \<open>Line 104: every counter divided by \<open>n\<close>.\<close>

fun divide_counts :: "('p \<times> int) list \<Rightarrow> int \<Rightarrow> py_error + 'p dist" where
  "divide_counts [] n = Inr []"
| "divide_counts ((corpus_page, num_samples) # rest) n =
     (case py_div (real_of_int num_samples) (real_of_int n) of
        Inl e \<Rightarrow> Inl e
      | Inr q \<Rightarrow>
          (case divide_counts rest n of
             Inl e \<Rightarrow> Inl e
           | Inr rest' \<Rightarrow> Inr ((corpus_page, q) # rest')))"

text \<open>\<^verbatim>\<open>range(n - 1)\<close> has \<open>n - 1\<close> elements, none when \<open>n \<le> 1\<close>.\<close>

definition sample_counts ::
  "'p corpus \<Rightarrow> real \<Rightarrow> int \<Rightarrow> (nat \<Rightarrow> real) \<Rightarrow> py_error + ('p \<times> int) list" where
  "sample_counts corpus damping_factor n rnd =
     (let sample_ranks = zip (keys corpus) (replicate (length corpus) 0)
      in case random_choice (rnd 0) (keys corpus) of
           Inl e \<Rightarrow> Inl e
         | Inr corpus_page \<Rightarrow>
             walk corpus damping_factor rnd 1 (nat (n - 1)) corpus_page sample_ranks)"

definition sample_pagerank ::
  "'p corpus \<Rightarrow> real \<Rightarrow> int \<Rightarrow> (nat \<Rightarrow> real) \<Rightarrow> py_error + 'p dist" where
  "sample_pagerank corpus damping_factor n rnd =
     (case sample_counts corpus damping_factor n rnd of
        Inl e \<Rightarrow> Inl e
      | Inr sample_ranks \<Rightarrow> divide_counts sample_ranks n)"

subsection \<open>iterate_pagerank\<close>







subsection \<open>The invariants of the link graph\<close>

text \<open>What the Python types give: distinct keys, and link sets without repetition.\<close>

definition is_dict :: "'p corpus \<Rightarrow> bool" where
  "is_dict corpus = (distinct (keys corpus) \<and> list_all (\<lambda>(page, links). distinct links) corpus)"

text \<open>Every page of an outbound link set is a key of the graph.\<close>

definition links_in_corpus :: "'p corpus \<Rightarrow> bool" where
  "links_in_corpus corpus = list_all (\<lambda>(page, links). set links \<subseteq> set (keys corpus)) corpus"


subsection \<open>Dictionaries given by a function on their keys\<close>

text \<open>The dictionary with the keys \<open>ks\<close>, in this order, and the value \<open>f k\<close> under \<open>k\<close>.\<close>

definition canon :: "'k list \<Rightarrow> ('k \<Rightarrow> 'v) \<Rightarrow> ('k \<times> 'v) list" where
  "canon ks f = map (\<lambda>k. (k, f k)) ks"

subsection \<open>The update rule and the two ways of applying it\<close>












subsection \<open>Example graphs and random sources\<close>

definition zero_draws :: "nat \<Rightarrow> real" where
  "zero_draws i = 0"

definition example_draws :: "nat \<Rightarrow> real" where
  "example_draws i = real i / 7"

definition corpus3 :: "string corpus" where
  "corpus3 = [(''1.html'', [''2.html'']), (''2.html'', [''1.html'', ''3.html'']), (''3.html'', [])]"






section \<open>Properties\<close>

subsection \<open>Dictionaries\<close>

lemma keys_canon: "keys (canon ks f) = ks"
  by (simp add: canon_def keys_def comp_def)

lemma dict_values_canon: "dict_values (canon ks f) = map f ks"
  by (simp add: canon_def dict_values_def comp_def)

lemma zip_replicate_canon: "zip ks (replicate (length ks) x) = canon ks (\<lambda>_. x)"
  by (induction ks) (simp_all add: canon_def)

lemma map_of_canon: "map_of (canon ks f) k = (if k \<in> set ks then Some (f k) else None)"
  by (induction ks) (simp_all add: canon_def)

lemma getitem_canon: "k \<in> set ks \<Longrightarrow> getitem (canon ks f) k = Inr (f k)"
  by (simp add: getitem_def map_of_canon)

lemma setitem_canon: "k \<in> set ks \<Longrightarrow> setitem (canon ks f) k v = canon ks (f(k := v))"
  by (auto simp: setitem_def keys_canon) (simp add: canon_def)

lemma iadd_canon: "k \<in> set ks \<Longrightarrow> iadd (canon ks f) k v = Inr (canon ks (f(k := f k + v)))"
  by (simp add: iadd_def getitem_canon setitem_canon)

lemma iadd_missing: "k \<notin> set (keys d) \<Longrightarrow> iadd d k v = Inl KeyError"
proof -
  assume "k \<notin> set (keys d)"
  then have "map_of d k = None" by (simp add: keys_def map_of_eq_None_iff)
  then show ?thesis by (simp add: iadd_def getitem_def)
qed

lemma add_links_canon:
  "set out \<subseteq> set ks \<Longrightarrow>
   add_links (canon ks f) out v = Inr (canon ks (\<lambda>k. f k + real (count_list out k) * v))"
proof (induction out arbitrary: f)
  case Nil
  then show ?case by simp
next
  case (Cons l out)
  have "add_links (canon ks f) (l # out) v = add_links (canon ks (f(l := f l + v))) out v"
    using Cons.prems by (simp add: iadd_canon)
  also have "\<dots> = Inr (canon ks (\<lambda>k. (f(l := f l + v)) k + real (count_list out k) * v))"
    using Cons.prems by (intro Cons.IH) simp
  also have "(\<lambda>k. (f(l := f l + v)) k + real (count_list out k) * v)
           = (\<lambda>k. f k + real (count_list (l # out) k) * v)"
    by (auto simp: fun_eq_iff algebra_simps)
  finally show ?case .
qed

lemma count_list_distinct: "distinct xs \<Longrightarrow> count_list xs x = (if x \<in> set xs then 1 else 0)"
  by (induction xs) auto

lemma getitem_Inr_iff: "getitem d k = Inr v \<longleftrightarrow> map_of d k = Some v"
  by (simp add: getitem_def split: option.splits)

lemma key_getitem: "k \<in> set (keys d) \<Longrightarrow> \<exists>v. getitem d k = Inr v \<and> (k, v) \<in> set d"
  by (cases "map_of d k") (auto simp: getitem_def keys_def map_of_eq_None_iff dest: map_of_SomeD)

subsection \<open>The transition model\<close>

lemma links_in_corpusD:
  "links_in_corpus corpus \<Longrightarrow> (page, links) \<in> set corpus \<Longrightarrow> set links \<subseteq> set (keys corpus)"
  by (auto simp: links_in_corpus_def list_all_iff)

lemma is_dictD: "is_dict corpus \<Longrightarrow> (page, links) \<in> set corpus \<Longrightarrow> distinct links"
  by (auto simp: is_dict_def list_all_iff)

lemma transition_model_linked:
  assumes "getitem corpus page = Inr out" "out \<noteq> []" "set out \<subseteq> set (keys corpus)"
  shows "transition_model corpus page d =
     Inr (canon (keys corpus) (\<lambda>q. (1 - d) / real (length corpus)
        + real (count_list out q) * (d / real (length out))))"
proof -
  have "corpus \<noteq> []" using assms(1) by (auto simp: getitem_def)
  then have [simp]: "length (keys corpus) = length corpus" by (simp add: keys_def)
  have z: "zip (keys corpus) (replicate (length corpus) x) = canon (keys corpus) (\<lambda>_. x)" for x :: real
    using zip_replicate_canon [of "keys corpus" x] by simp
  show ?thesis
    using assms \<open>corpus \<noteq> []\<close>
    by (simp add: transition_model_def py_div_def z add_links_canon)
qed

lemma transition_model_dangling:
  assumes "getitem corpus page = Inr []"
  shows "transition_model corpus page d = Inr (canon (keys corpus) (\<lambda>q. 1 / real (length corpus)))"
proof -
  have "corpus \<noteq> []" using assms(1) by (auto simp: getitem_def)
  have z: "zip (keys corpus) (replicate (length corpus) x) = canon (keys corpus) (\<lambda>_. x)" for x :: real
    using zip_replicate_canon [of "keys corpus" x] by (simp add: keys_def)
  show ?thesis
    using assms \<open>corpus \<noteq> []\<close>
    by (simp add: transition_model_def py_div_def z)
qed


lemma sum_list_indicator:
  fixes a b :: real
  shows "sum_list (map (\<lambda>q. b + real (if P q then 1 else 0) * a) ks)
       = real (length ks) * b + real (length (filter P ks)) * a"
  by (induction ks) (simp_all add: algebra_simps)

lemma length_filter_mem:
  assumes "distinct ks" "distinct out" "set out \<subseteq> set ks"
  shows "length (filter (\<lambda>q. q \<in> set out) ks) = length out"
proof -
  have "length (filter (\<lambda>q. q \<in> set out) ks) = card ({q. q \<in> set out} \<inter> set ks)"
    using assms(1) by (rule distinct_length_filter)
  also have "{q. q \<in> set out} \<inter> set ks = set out" using assms(3) by auto
  also have "card (set out) = length out" using assms(2) by (rule distinct_card)
  finally show ?thesis .
qed

lemma transition_model_canon:
  assumes "is_dict corpus" "links_in_corpus corpus" "getitem corpus page = Inr out"
  shows "transition_model corpus page d =
     Inr (canon (keys corpus) (\<lambda>q.
        if out = [] then 1 / real (length corpus)
        else if q \<in> set out then (1 - d) / real (length corpus) + d / real (length out)
        else (1 - d) / real (length corpus)))"
proof (cases "out = []")
  case True
  then show ?thesis using assms(3) by (simp add: transition_model_dangling)
next
  case False
  have mem: "(page, out) \<in> set corpus"
    using assms(3) by (auto simp: getitem_Inr_iff dest: map_of_SomeD)
  have sub: "set out \<subseteq> set (keys corpus)" using assms(2) mem by (rule links_in_corpusD)
  have dis: "distinct out" using assms(1) mem by (rule is_dictD)
  have "(\<lambda>q. (1 - d) / real (length corpus) + real (count_list out q) * (d / real (length out)))
      = (\<lambda>q. if q \<in> set out then (1 - d) / real (length corpus) + d / real (length out)
         else (1 - d) / real (length corpus))"
    by (auto simp: fun_eq_iff count_list_distinct [OF dis])
  then show ?thesis
    using transition_model_linked [OF assms(3) False sub, of d] False by simp
qed

lemma transition_model_sum:
  assumes "is_dict corpus" "links_in_corpus corpus" "getitem corpus page = Inr out"
    and "transition_model corpus page d = Inr pd"
  shows "sum_list (dict_values pd) = 1"
proof -
  have mem: "(page, out) \<in> set corpus"
    using assms(3) by (auto simp: getitem_Inr_iff dest: map_of_SomeD)
  then have ne: "corpus \<noteq> []" by auto
  have len: "length (keys corpus) = length corpus" by (simp add: keys_def)
  show ?thesis
  proof (cases "out = []")
    case True
    then have "pd = canon (keys corpus) (\<lambda>q. 1 / real (length corpus))"
      using assms(3,4) by (simp add: transition_model_dangling)
    then show ?thesis using ne by (simp add: dict_values_canon sum_list_triv len comp_def)
  next
    case False
    have sub: "set out \<subseteq> set (keys corpus)" using assms(2) mem by (rule links_in_corpusD)
    have dis: "distinct out" using assms(1) mem by (rule is_dictD)
    have dk: "distinct (keys corpus)" using assms(1) by (simp add: is_dict_def)
    have "pd = canon (keys corpus) (\<lambda>q. (1 - d) / real (length corpus)
        + real (count_list out q) * (d / real (length out)))"
      using transition_model_linked [OF assms(3) False sub, of d] assms(4) by simp
    then have "sum_list (dict_values pd)
      = sum_list (map (\<lambda>q. (1 - d) / real (length corpus)
           + real (if q \<in> set out then 1 else 0) * (d / real (length out))) (keys corpus))"
      by (simp add: dict_values_canon count_list_distinct [OF dis])
    also have "\<dots> = real (length corpus) * ((1 - d) / real (length corpus))
         + real (length out) * (d / real (length out))"
      by (simp only: sum_list_indicator length_filter_mem [OF dk dis sub] len)
    also have "\<dots> = 1" using ne False by simp
    finally show ?thesis .
  qed
qed

lemma corpus3_ok: "is_dict corpus3" "links_in_corpus corpus3"
  by (simp_all add: corpus3_def is_dict_def links_in_corpus_def keys_def)

text \<open>
  C5: in a link graph (distinct keys, link sets within the keys), for a page that is a key
  with the outbound links \<open>out\<close>, and whatever the damping factor is,
  \<open>transition_model\<close> returns a distribution over the keys of the graph that gives
  \<open>(1 - d) / N + d / L\<close> to every linked page and \<open>(1 - d) / N\<close> to every other page when
  \<open>out\<close> has \<open>L > 0\<close> elements, and \<open>1 / N\<close> to every page when \<open>out\<close> is empty
  (\<open>N\<close> the number of pages).
\<close>

theorem transition_model_probabilities:
  assumes "is_dict corpus" "links_in_corpus corpus" "getitem corpus page = Inr out"
  shows "\<exists>pd. transition_model corpus page d = Inr pd \<and> keys pd = keys corpus \<and>
    (\<forall>q \<in> set (keys corpus). getitem pd q = Inr
       (if out = [] then 1 / real (length corpus)
        else if q \<in> set out then (1 - d) / real (length corpus) + d / real (length out)
        else (1 - d) / real (length corpus)))"
  by (simp add: transition_model_canon [OF assms] keys_canon getitem_canon)

theorem transition_model_probabilities_witness:
  "is_dict corpus3 \<and> links_in_corpus corpus3
   \<and> getitem corpus3 ''2.html'' = Inr [''1.html'', ''3.html'']
   \<and> getitem corpus3 ''3.html'' = Inr []
   \<and> transition_model corpus3 ''2.html'' (85 / 100)
       = Inr [(''1.html'', 19 / 40), (''2.html'', 1 / 20), (''3.html'', 19 / 40)]
   \<and> transition_model corpus3 ''3.html'' (85 / 100)
       = Inr [(''1.html'', 1 / 3), (''2.html'', 1 / 3), (''3.html'', 1 / 3)]"
proof -
  have g2: "getitem corpus3 ''2.html'' = Inr [''1.html'', ''3.html'']"
    and g3: "getitem corpus3 ''3.html'' = Inr []"
    by (simp_all add: corpus3_def getitem_def)
  obtain pd where pd: "transition_model corpus3 ''2.html'' (85 / 100) = Inr pd"
      "keys pd = keys corpus3"
      "\<forall>q \<in> set (keys corpus3). getitem pd q = Inr
       (if [''1.html'', ''3.html''] = [] then 1 / real (length corpus3)
        else if q \<in> set [''1.html'', ''3.html'']
          then (1 - 85 / 100) / real (length corpus3) + (85 / 100) / real (length [''1.html'', ''3.html''])
        else (1 - 85 / 100) / real (length corpus3))"
    using transition_model_probabilities [OF corpus3_ok g2, of "85 / 100"] by blast
  have t2: "transition_model corpus3 ''2.html'' (85 / 100)
       = Inr [(''1.html'', 19 / 40), (''2.html'', 1 / 20), (''3.html'', 19 / 40)]"
    by (simp add: corpus3_def transition_model_def getitem_def py_div_def keys_def iadd_def setitem_def)
  have t3: "transition_model corpus3 ''3.html'' (85 / 100)
       = Inr [(''1.html'', 1 / 3), (''2.html'', 1 / 3), (''3.html'', 1 / 3)]"
    by (simp add: corpus3_def transition_model_def getitem_def py_div_def keys_def)
  from corpus3_ok g2 g3 t2 t3 pd show ?thesis by simp
qed

text \<open>
  C6: for a link graph and a page that is one of its keys (so the graph is not empty), the
  distribution returned by \<open>transition_model\<close> has the keys of the graph, each once
  (\<open>N\<close> entries), and its values sum to 1 in real arithmetic.
\<close>

theorem transition_model_total:
  assumes "is_dict corpus" "links_in_corpus corpus" "page \<in> set (keys corpus)"
  shows "\<exists>pd. transition_model corpus page d = Inr pd \<and> keys pd = keys corpus
     \<and> distinct (keys pd) \<and> length pd = length corpus \<and> sum_list (dict_values pd) = 1"
proof -
  obtain out where out: "getitem corpus page = Inr out"
    using key_getitem [OF assms(3)] by blast
  obtain pd where pd: "transition_model corpus page d = Inr pd" "keys pd = keys corpus"
    using transition_model_canon [OF assms(1,2) out, of d] by (simp add: keys_canon)
  have "length pd = length corpus" using pd(2) by (metis keys_def length_map)
  moreover have "distinct (keys pd)" using assms(1) pd(2) by (simp add: is_dict_def)
  moreover have "sum_list (dict_values pd) = 1"
    using assms(1,2) out pd(1) by (rule transition_model_sum)
  ultimately show ?thesis using pd by simp
qed

theorem transition_model_total_witness:
  "is_dict corpus3 \<and> links_in_corpus corpus3 \<and> ''2.html'' \<in> set (keys corpus3)
   \<and> (\<exists>pd. transition_model corpus3 ''2.html'' (85 / 100) = Inr pd \<and> keys pd = keys corpus3
     \<and> distinct (keys pd) \<and> length pd = length corpus3 \<and> sum_list (dict_values pd) = 1)"
proof -
  have k: "''2.html'' \<in> set (keys corpus3)" by (simp add: corpus3_def keys_def)
  from corpus3_ok k transition_model_total [OF corpus3_ok k, of "85 / 100"]
  show ?thesis by simp
qed



lemma restrict_links_closed: "links_in_corpus (restrict_links pages)"
proof -
  have "keys (restrict_links pages) = keys pages"
    by (simp add: restrict_links_def keys_def comp_def case_prod_unfold)
  then show ?thesis
    by (auto simp: links_in_corpus_def list_all_iff) (auto simp: restrict_links_def)
qed

text \<open>
  C9: when every page of an outbound link set is a key of the graph, \<open>transition_model\<close>
  on a key of the graph returns a distribution: no update of lines 71 and 72 meets a
  missing key. The second loop of \<open>crawl\<close> establishes that precondition. Without it the
  call can fail: a page whose only link is outside the graph raises KeyError.
\<close>

theorem transition_model_no_KeyError:
  "(links_in_corpus corpus \<and> page \<in> set (keys corpus)
      \<longrightarrow> (\<exists>pd. transition_model corpus page d = Inr pd))
   \<and> links_in_corpus (restrict_links pages)
   \<and> transition_model [(''1.html'', [''2.html''])] ''1.html'' d = Inl KeyError"
proof (intro conjI impI)
  assume a: "links_in_corpus corpus \<and> page \<in> set (keys corpus)"
  from a obtain out where out: "getitem corpus page = Inr out" "(page, out) \<in> set corpus"
    using key_getitem [of page corpus] by blast
  have sub: "set out \<subseteq> set (keys corpus)"
    using a out(2) links_in_corpusD [of corpus page out] by blast
  show "\<exists>pd. transition_model corpus page d = Inr pd"
  proof (cases "out = []")
    case True
    then show ?thesis using transition_model_dangling [of corpus page d] out(1) by simp
  next
    case False
    then show ?thesis using transition_model_linked [OF out(1) False sub, of d] by simp
  qed
next
  show "links_in_corpus (restrict_links pages)" by (rule restrict_links_closed)
next
  have "iadd [(''1.html'', (1 - d))] ''2.html'' d = Inl KeyError"
    by (rule iadd_missing) (simp add: keys_def)
  then show "transition_model [(''1.html'', [''2.html''])] ''1.html'' d = Inl KeyError"
    by (simp add: transition_model_def getitem_def py_div_def keys_def)
qed

theorem transition_model_no_KeyError_witness:
  "links_in_corpus corpus3 \<and> ''2.html'' \<in> set (keys corpus3)
   \<and> (\<exists>pd. transition_model corpus3 ''2.html'' (85 / 100) = Inr pd)
   \<and> restrict_links [(''1.html'', [''2.html''])] = [(''1.html'', [])]
   \<and> links_in_corpus (restrict_links [(''1.html'', [''2.html''])])
   \<and> transition_model [(''1.html'', [''2.html''])] ''1.html'' (85 / 100) = Inl KeyError"
proof -
  have k: "''2.html'' \<in> set (keys corpus3)" by (simp add: corpus3_def keys_def)
  have r: "restrict_links [(''1.html'', [''2.html''])] = [(''1.html'', [])]"
    by (simp add: restrict_links_def keys_def)
  from transition_model_no_KeyError [of corpus3 "''2.html''" "85 / 100" "[(''1.html'', [''2.html''])]"]
    corpus3_ok(2) k r
  show ?thesis by simp
qed

subsection \<open>The random source\<close>

lemma length_accumulate: "length (accumulate acc ws) = length ws"
  by (induction ws arbitrary: acc) auto

lemma last_accumulate: "ws \<noteq> [] \<Longrightarrow> last (accumulate acc ws) = acc + sum_list ws"
proof (induction ws arbitrary: acc)
  case Nil
  then show ?case by simp
next
  case (Cons w ws)
  show ?case
  proof (cases "ws = []")
    case True
    then show ?thesis by simp
  next
    case False
    then have "accumulate (acc + w) ws \<noteq> []" by (cases ws) auto
    then show ?thesis using Cons.IH [OF False, of "acc + w"] by (simp add: add.assoc)
  qed
qed

lemma bisect_bounds: "lo \<le> hi \<Longrightarrow> lo \<le> bisect a x lo hi \<and> bisect a x lo hi \<le> hi"
proof (induction a x lo hi rule: bisect.induct)
  case (1 a x lo hi)
  show ?case
  proof (cases "lo < hi")
    case False
    then show ?thesis using "1.prems" by (subst (1 2) bisect.simps) simp
  next
    case True
    let ?mid = "(lo + hi) div 2"
    have m: "lo \<le> ?mid" "?mid < hi" using True by simp_all
    show ?thesis
    proof (cases "x < a ! ?mid")
      case left: True
      have "lo \<le> bisect a x lo ?mid \<and> bisect a x lo ?mid \<le> ?mid"
        using "1.IH"(1) [OF True refl left] m by simp
      then show ?thesis using True left m by (subst (1 2) bisect.simps) (simp add: Let_def)
    next
      case right: False
      have "?mid + 1 \<le> bisect a x (?mid + 1) hi \<and> bisect a x (?mid + 1) hi \<le> hi"
        using "1.IH"(2) [OF True refl right] m by simp
      then show ?thesis using True right m by (subst (1 2) bisect.simps) (simp add: Let_def)
    qed
  qed
qed

lemma random_choices_mem:
  assumes "length ws = length ps" "ps \<noteq> []" "0 < sum_list ws"
  shows "\<exists>p \<in> set ps. random_choices u ps ws = Inr p"
proof -
  have ws: "ws \<noteq> []" using assms(1,2) by auto
  then have ne: "accumulate 0 ws \<noteq> []" by (cases ws) auto
  have tot: "last (accumulate 0 ws) = sum_list ws" using last_accumulate [OF ws, of 0] by simp
  let ?i = "bisect (accumulate 0 ws) (u * sum_list ws) 0 (length ps - 1)"
  have "?i \<le> length ps - 1" using bisect_bounds [of 0 "length ps - 1"] by simp
  then have "?i < length ps" using assms(2) by (cases ps) auto
  then have "ps ! ?i \<in> set ps" by (rule nth_mem)
  moreover have "random_choices u ps ws = Inr (ps ! ?i)"
    using assms ne tot by (simp add: random_choices_def length_accumulate Let_def)
  ultimately show ?thesis by simp
qed

lemma random_choice_mem: "seq \<noteq> [] \<Longrightarrow> \<exists>p \<in> set seq. random_choice u seq = Inr p"
proof -
  assume "seq \<noteq> []"
  then have "length seq - 1 < length seq" by simp
  moreover have "min (nat \<lfloor>u * real (length seq)\<rfloor>) (length seq - 1) \<le> length seq - 1"
    by (rule min.cobounded2)
  ultimately have "min (nat \<lfloor>u * real (length seq)\<rfloor>) (length seq - 1) < length seq"
    by (rule order.strict_trans1 [rotated])
  then have "seq ! min (nat \<lfloor>u * real (length seq)\<rfloor>) (length seq - 1) \<in> set seq"
    by (rule nth_mem)
  with \<open>seq \<noteq> []\<close> show ?thesis by (simp add: random_choice_def)
qed

subsection \<open>The sampling estimator\<close>

lemma map_fun_upd_other: "p \<notin> set ks \<Longrightarrow> map (\<lambda>a. if a = p then v else c a) ks = map c ks"
  by (induction ks) auto

lemma sum_list_fun_upd:
  fixes c :: "'k \<Rightarrow> int"
  assumes "distinct ks" "p \<in> set ks"
  shows "sum_list (map (c(p := c p + 1)) ks) = sum_list (map c ks) + 1"
  using assms
proof (induction ks)
  case Nil
  then show ?case by simp
next
  case (Cons k ks)
  show ?case
  proof (cases "k = p")
    case True
    then have "p \<notin> set ks" using Cons.prems(1) by simp
    then show ?thesis using True by (simp add: map_fun_upd_other)
  next
    case False
    then show ?thesis using Cons by simp
  qed
qed

lemma walk_canon:
  assumes "is_dict corpus" "links_in_corpus corpus"
  shows "page \<in> set (keys corpus) \<Longrightarrow>
    \<exists>c'. walk corpus d rnd i k page (canon (keys corpus) c) = Inr (canon (keys corpus) c')
      \<and> (\<forall>q. c q \<le> c' q)
      \<and> sum_list (map c' (keys corpus)) = sum_list (map c (keys corpus)) + int k"
proof (induction k arbitrary: i page c)
  case 0
  then show ?case by auto
next
  case (Suc k)
  obtain out where out: "getitem corpus page = Inr out"
    using key_getitem [OF Suc.prems] by blast
  obtain pd where pd: "transition_model corpus page d = Inr pd" "keys pd = keys corpus"
    using transition_model_canon [OF assms out, of d] by (simp add: keys_canon)
  have s: "sum_list (dict_values pd) = 1" using assms out pd(1) by (rule transition_model_sum)
  have "length (dict_values pd) = length (keys pd)" by (simp add: dict_values_def keys_def)
  moreover have "keys pd \<noteq> []" using pd(2) Suc.prems by auto
  ultimately obtain page' where page': "page' \<in> set (keys pd)"
      "random_choices (rnd i) (keys pd) (dict_values pd) = Inr page'"
    using random_choices_mem [of "dict_values pd" "keys pd" "rnd i"] s by auto
  let ?c1 = "c(page := c page + 1)"
  have page'k: "page' \<in> set (keys corpus)" using page'(1) pd(2) by simp
  obtain c' where c': "walk corpus d rnd (Suc i) k page' (canon (keys corpus) ?c1)
        = Inr (canon (keys corpus) c')"
      "\<forall>q. ?c1 q \<le> c' q"
      "sum_list (map c' (keys corpus)) = sum_list (map ?c1 (keys corpus)) + int k"
    using Suc.IH [OF page'k, of "Suc i" ?c1] by blast
  have dk: "distinct (keys corpus)" using assms(1) by (simp add: is_dict_def)
  have w: "walk corpus d rnd i (Suc k) page (canon (keys corpus) c) = Inr (canon (keys corpus) c')"
    using Suc.prems pd(1) page'(2) c'(1) by (simp add: iadd_canon)
  have le: "\<forall>q. c q \<le> c' q"
  proof
    fix q
    have "c q \<le> ?c1 q" by simp
    also have "\<dots> \<le> c' q" using c'(2) by blast
    finally show "c q \<le> c' q" .
  qed
  have "sum_list (map c' (keys corpus)) = sum_list (map c (keys corpus)) + int (Suc k)"
    using c'(3) sum_list_fun_upd [OF dk Suc.prems, of c] by simp
  with w le show ?case by blast
qed

lemma divide_counts_canon:
  "n \<noteq> 0 \<Longrightarrow> divide_counts (canon ks c) n = Inr (canon ks (\<lambda>k. real_of_int (c k) / real_of_int n))"
  by (induction ks) (simp_all add: canon_def py_div_def)


lemma keys_nonempty: "corpus \<noteq> [] \<Longrightarrow> keys corpus \<noteq> []"
  by (simp add: keys_def)

lemma zip_keys_replicate:
  "zip (keys corpus) (replicate (length corpus) x) = canon (keys corpus) (\<lambda>_. x)"
  using zip_replicate_canon [of "keys corpus" x] by (simp add: keys_def)

lemma sample_counts_short:
  assumes "corpus \<noteq> []" "n \<le> 1"
  shows "sample_counts corpus d n rnd = Inr (canon (keys corpus) (\<lambda>_. 0))"
proof -
  obtain p where "random_choice (rnd 0) (keys corpus) = Inr p"
    using random_choice_mem [OF keys_nonempty [OF assms(1)]] by blast
  moreover have "nat (n - 1) = 0" using assms(2) by simp
  ultimately show ?thesis by (simp add: sample_counts_def zip_keys_replicate)
qed

lemma sample_counts_canon:
  assumes "is_dict corpus" "links_in_corpus corpus" "corpus \<noteq> []"
  shows "\<exists>c'. sample_counts corpus d n rnd = Inr (canon (keys corpus) c')
      \<and> (\<forall>q. 0 \<le> c' q) \<and> sum_list (map c' (keys corpus)) = int (nat (n - 1))"
proof -
  obtain p where p: "p \<in> set (keys corpus)" "random_choice (rnd 0) (keys corpus) = Inr p"
    using random_choice_mem [OF keys_nonempty [OF assms(3)]] by blast
  obtain c' where c': "walk corpus d rnd 1 (nat (n - 1)) p (canon (keys corpus) (\<lambda>_. 0))
        = Inr (canon (keys corpus) c')"
      "\<forall>q. (0::int) \<le> c' q"
      "sum_list (map c' (keys corpus)) = sum_list (map (\<lambda>_. 0) (keys corpus)) + int (nat (n - 1))"
    using walk_canon [OF assms(1,2) p(1), of d rnd 1 "nat (n - 1)" "\<lambda>_. 0"] by blast
  have "sample_counts corpus d n rnd = Inr (canon (keys corpus) c')"
    using p(2) c'(1) by (simp add: sample_counts_def zip_keys_replicate)
  moreover have "sum_list (map c' (keys corpus)) = int (nat (n - 1))"
    using c'(3) by simp
  ultimately show ?thesis using c'(2) by blast
qed

lemma sum_list_divide:
  fixes c :: "'k \<Rightarrow> int"
  shows "sum_list (map (\<lambda>k. real_of_int (c k) / x) ks) = real_of_int (sum_list (map c ks)) / x"
  by (induction ks) (simp_all add: add_divide_distrib)


text \<open>
  C10: for a non-empty link graph and \<open>n \<ge> 1\<close>, whatever the damping factor and the
  random source are, the visit counters of \<open>sample_pagerank\<close> before the division of
  line 104 have the keys of the graph, are non-negative integers and total \<open>n - 1\<close>; the
  returned mapping has one entry for each key of the graph, each the counter divided by
  \<open>n\<close>, and its values sum to \<open>(n - 1) / n\<close>.
\<close>

theorem sample_pagerank_counts:
  assumes "is_dict corpus" "links_in_corpus corpus" "corpus \<noteq> []" "1 \<le> n"
  shows "\<exists>counts ranks. sample_counts corpus d n rnd = Inr counts
     \<and> keys counts = keys corpus
     \<and> (\<forall>c \<in> set (dict_values counts). 0 \<le> c)
     \<and> sum_list (dict_values counts) = n - 1
     \<and> sample_pagerank corpus d n rnd = Inr ranks
     \<and> keys ranks = keys corpus \<and> distinct (keys ranks)
     \<and> dict_values ranks = map (\<lambda>c. real_of_int c / real_of_int n) (dict_values counts)
     \<and> sum_list (dict_values ranks) = (real_of_int n - 1) / real_of_int n"
proof -
  obtain c' where c': "sample_counts corpus d n rnd = Inr (canon (keys corpus) c')"
      "\<forall>q. 0 \<le> c' q" "sum_list (map c' (keys corpus)) = int (nat (n - 1))"
    using sample_counts_canon [OF assms(1-3), of d n rnd] by blast
  let ?counts = "canon (keys corpus) c'"
  let ?ranks = "canon (keys corpus) (\<lambda>k. real_of_int (c' k) / real_of_int n)"
  have n0: "n \<noteq> 0" using assms(4) by simp
  have tot: "sum_list (dict_values ?counts) = n - 1"
    using c'(3) assms(4) by (simp add: dict_values_canon)
  have r: "sample_pagerank corpus d n rnd = Inr ?ranks"
    using c'(1) n0 by (simp add: sample_pagerank_def divide_counts_canon)
  have "sum_list (dict_values ?ranks) = real_of_int (n - 1) / real_of_int n"
    using tot by (simp add: dict_values_canon sum_list_divide)
  then have s: "sum_list (dict_values ?ranks) = (real_of_int n - 1) / real_of_int n"
    by simp
  have nn: "\<forall>c \<in> set (dict_values ?counts). 0 \<le> c"
    using c'(2) by (auto simp: dict_values_canon)
  have dk: "distinct (keys ?ranks)" using assms(1) by (simp add: keys_canon is_dict_def)
  have v: "dict_values ?ranks = map (\<lambda>c. real_of_int c / real_of_int n) (dict_values ?counts)"
    by (simp add: dict_values_canon comp_def)
  from c'(1) tot r s nn dk v show ?thesis
    by (intro exI [of _ ?counts] exI [of _ ?ranks]) (simp add: keys_canon)
qed

theorem sample_pagerank_counts_witness:
  "is_dict corpus3 \<and> links_in_corpus corpus3 \<and> corpus3 \<noteq> [] \<and> (1::int) \<le> 5
   \<and> sample_counts corpus3 (85 / 100) 5 example_draws
      = Inr [(''1.html'', 2), (''2.html'', 2), (''3.html'', 0)]
   \<and> sample_pagerank corpus3 (85 / 100) 5 example_draws
      = Inr [(''1.html'', 2 / 5), (''2.html'', 2 / 5), (''3.html'', 0)]
   \<and> (\<exists>counts ranks. sample_counts corpus3 (85 / 100) 5 example_draws = Inr counts
     \<and> keys counts = keys corpus3
     \<and> (\<forall>c \<in> set (dict_values counts). 0 \<le> c)
     \<and> sum_list (dict_values counts) = 5 - 1
     \<and> sample_pagerank corpus3 (85 / 100) 5 example_draws = Inr ranks
     \<and> keys ranks = keys corpus3 \<and> distinct (keys ranks)
     \<and> dict_values ranks = map (\<lambda>c. real_of_int c / real_of_int 5) (dict_values counts)
     \<and> sum_list (dict_values ranks) = (real_of_int 5 - 1) / real_of_int 5)"
proof -
  have ne: "corpus3 \<noteq> []" by (simp add: corpus3_def)
  have n: "(1::int) \<le> 5" by simp
  have c: "sample_counts corpus3 (85 / 100) 5 example_draws
      = Inr [(''1.html'', 2), (''2.html'', 2), (''3.html'', 0)]"
    by (simp add: sample_counts_def corpus3_def keys_def dict_values_def random_choice_def
        random_choices_def bisect.simps transition_model_def getitem_def py_div_def iadd_def
        setitem_def Let_def eval_nat_numeral example_draws_def)
  then have r: "sample_pagerank corpus3 (85 / 100) 5 example_draws
      = Inr [(''1.html'', 2 / 5), (''2.html'', 2 / 5), (''3.html'', 0)]"
    by (simp add: sample_pagerank_def py_div_def)
  from sample_pagerank_counts [OF corpus3_ok ne n, of "85 / 100" example_draws] corpus3_ok ne c r
  show ?thesis by (simp add: corpus3_def keys_def dict_values_def)
qed

text \<open>
  C1 says that \<open>n\<close> visits are recorded and that the ranks sum to 1, as the docstring of
  \<open>sample_pagerank\<close> does. The loop of the code runs \<open>n - 1\<close> times: on the one-page
  graph with \<open>n = 2\<close>, whatever the damping factor and the random source are, one visit
  is recorded and the only rank is \<open>1 / 2\<close>.
\<close>

theorem sample_pagerank_two_samples:
  "sample_pagerank [(''a.html'', [])] d 2 rnd = Inr [(''a.html'', 1 / 2)]"
  by (simp add: sample_pagerank_def sample_counts_def keys_def dict_values_def random_choice_def
      random_choices_def bisect.simps transition_model_def getitem_def py_div_def iadd_def
      setitem_def Let_def eval_nat_numeral)

text \<open>
  C4 says that with \<open>n = 1\<close> the start page has rank 1. In the code, with \<open>n = 1\<close> the
  loop body never runs and no visit is recorded: every page of a non-empty graph, the
  start page too, has rank 0.
\<close>

theorem sample_pagerank_one_sample:
  "corpus \<noteq> [] \<Longrightarrow> sample_pagerank corpus d 1 rnd = Inr (canon (keys corpus) (\<lambda>_. 0))"
  by (simp add: sample_pagerank_def sample_counts_short divide_counts_canon)

theorem sample_pagerank_one_sample_witness:
  "corpus3 \<noteq> [] \<and> sample_pagerank corpus3 (85 / 100) 1 zero_draws
     = Inr [(''1.html'', 0), (''2.html'', 0), (''3.html'', 0)]"
proof -
  have ne: "corpus3 \<noteq> []" by (simp add: corpus3_def)
  from sample_pagerank_one_sample [OF ne, of "85 / 100" zero_draws] ne
  show ?thesis by (simp add: canon_def corpus3_def keys_def)
qed

subsection \<open>The passes of the iterative estimator\<close>














subsection \<open>Arguments outside the contracts\<close>




subsection \<open>The iterative estimator updates in place\<close>








subsection \<open>The iteration with the damping factor 1\<close>






subsection \<open>Termination of the iteration for a damping factor below 1\<close>


























end
